theory Spec2Isabelle
  imports Main
begin

section \<open>Python values used by mock-server.py\<close>

text \<open>
  The program is Python 2. Byte strings and the text read from the JSON configuration are
  both modelled as \<^typ>\<open>string\<close>; the configuration is taken to be ASCII text, for which
  Python 2 compares \<open>str\<close> and \<open>unicode\<close> values character by character. Exceptions are
  values of \<open>error\<close>; a dictionary with fixed keys is a record, so a missing key
  (\<open>KeyError\<close>) is excluded by the types.
\<close>

datatype error = ValueError | IndexError

text \<open>\<open>xs[i]\<close> and \<open>xs.pop(i)\<close> for a non-negative index: out of range raises.\<close>

definition index :: "'a list \<Rightarrow> nat \<Rightarrow> error + 'a" where
  "index xs i = (if i < length xs then Inr (xs ! i) else Inl IndexError)"

definition pop :: "'a list \<Rightarrow> nat \<Rightarrow> error + 'a list" where
  "pop xs i = (if i < length xs then Inr (take i xs @ drop (Suc i) xs) else Inl IndexError)"

subsection \<open>Strings\<close>

text \<open>\<open>str.strip()\<close> removes the C locale's white space: blank, TAB, LF, VT, FF, CR.\<close>

definition is_space :: "char \<Rightarrow> bool" where
  "is_space c = (let n = (of_char c :: nat) in n = 32 \<or> (9 \<le> n \<and> n \<le> 13))"

definition strip :: "string \<Rightarrow> string" where
  "strip s = rev (dropWhile is_space (rev (dropWhile is_space s)))"

text \<open>
  \<open>unicode.strip()\<close>, used on the header lines of the configuration, also removes the
  separators FS, GS, RS, US and, in the Latin-1 range, NEL and the no-break space.
\<close>

definition is_uspace :: "char \<Rightarrow> bool" where
  "is_uspace c = (let n = (of_char c :: nat) in
     n = 32 \<or> (9 \<le> n \<and> n \<le> 13) \<or> (28 \<le> n \<and> n \<le> 31) \<or> n = 133 \<or> n = 160)"

definition ustrip :: "string \<Rightarrow> string" where
  "ustrip s = rev (dropWhile is_uspace (rev (dropWhile is_uspace s)))"

definition upper_char :: "char \<Rightarrow> char" where
  "upper_char c = (let n = (of_char c :: nat) in if 97 \<le> n \<and> n \<le> 122 then char_of (n - 32) else c)"

definition upper :: "string \<Rightarrow> string" where
  "upper s = map upper_char s"

definition lower_char :: "char \<Rightarrow> char" where
  "lower_char c = (let n = (of_char c :: nat) in if 65 \<le> n \<and> n \<le> 90 then char_of (n + 32) else c)"

definition lower :: "string \<Rightarrow> string" where
  "lower s = map lower_char s"

text \<open>\<open>sep.join(xs)\<close>.\<close>

fun join :: "string \<Rightarrow> string list \<Rightarrow> string" where
  "join sep [] = []"
| "join sep [x] = x"
| "join sep (x # y # ys) = x @ sep @ join sep (y # ys)"

text \<open>
  \<open>hdr_name, hdr_value = h.split(":", 1)\<close>: the split at the first colon gives two parts
  when there is a colon; without one it gives a single part and the unpacking raises
  \<open>ValueError\<close>.
\<close>

definition split_colon :: "string \<Rightarrow> error + (string \<times> string)" where
  "split_colon h =
     (if CHR '':'' \<in> set h
      then Inr (takeWhile (\<lambda>c. c \<noteq> CHR '':'') h, tl (dropWhile (\<lambda>c. c \<noteq> CHR '':'') h))
      else Inl ValueError)"

text \<open>Decimal rendering, as \<open>"%d"\<close> and \<open>"%s"\<close> give it for an integer.\<close>

definition digit_char :: "nat \<Rightarrow> char" where
  "digit_char d = char_of (48 + d)"

function str_nat :: "nat \<Rightarrow> string" where
  "str_nat n = (if n < 10 then [digit_char n] else str_nat (n div 10) @ [digit_char (n mod 10)])"
  by pat_completeness auto
termination
  by (relation "measure (\<lambda>n. n)") auto

declare str_nat.simps [simp del]

definition str_int :: "int \<Rightarrow> string" where
  "str_int i = (if i < 0 then CHR ''-'' # str_nat (nat (- i)) else str_nat (nat i))"

text \<open>
  \<open>int(s)\<close> on a string: white space around, an optional sign, then one or more decimal
  digits; anything else raises \<open>ValueError\<close>.
\<close>

definition is_digit :: "char \<Rightarrow> bool" where
  "is_digit c = (let n = (of_char c :: nat) in 48 \<le> n \<and> n \<le> 57)"

definition digits_value :: "string \<Rightarrow> nat" where
  "digits_value ds = foldl (\<lambda>a c. 10 * a + (of_char c - 48)) 0 ds"

definition py_int :: "string \<Rightarrow> error + int" where
  "py_int s =
     (let t = strip s;
          neg = (t \<noteq> [] \<and> hd t = CHR ''-'');
          ds = (if t \<noteq> [] \<and> (hd t = CHR ''-'' \<or> hd t = CHR ''+'') then tl t else t)
      in if ds \<noteq> [] \<and> list_all is_digit ds
         then Inr (if neg then - int (digits_value ds) else int (digits_value ds))
         else Inl ValueError)"

text \<open>
  \<open>f.read(l)\<close> on the bytes still to come on the connection: a negative count reads
  them all. Waiting for bytes that never come is not modelled.
\<close>

definition file_read :: "string \<Rightarrow> int \<Rightarrow> string" where
  "file_read f l = (if l < 0 then f else take (nat l) f)"

section \<open>Data model\<close>

text \<open>
  One entry of a server's \<open>requests\<close> list: \<open>r['request']['req']\<close> is the field \<open>req\<close>,
  \<open>r['response']\<close> the record \<open>response\<close>. The keys \<open>headers\<close> and \<open>body\<close> are optional
  (\<open>resp.get\<close>).
\<close>

record response_spec =
  status :: int
  headers :: "string list option"
  body :: "string list option"

record request_spec =
  req :: string
  response :: response_spec

text \<open>
  The fields of a \<open>MockServer\<close> thread object. \<open>socket_open\<close> stands for the state of
  \<open>self.server.socket\<close>, which \<open>close\<close> closes.
\<close>

record mock_server =
  name :: string
  port :: int
  schema :: string
  address :: string
  requests :: "request_spec list"
  requests_in_order :: bool
  socket_open :: bool
  is_closed :: bool

text \<open>
  The arguments of \<open>req_handler\<close> (\<open>req_method\<close> for its \<open>method\<close>). \<open>req_headers\<close>
  is the header dictionary of the request, keyed by lower-cased header name, as
  \<open>getheader\<close> reads it.
\<close>

record request =
  req_method :: string
  path :: string
  version :: string
  req_headers :: "string \<rightharpoonup> string"
  req_body_file :: string

text \<open>
  The module's globals that the server threads share: the log queue, and the clock that
  \<open>datetime.now()\<close> reads (\<open>now w k\<close> is the text of its \<open>k\<close>-th reading).
\<close>

record world =
  LOG_QUEUE :: "string list"
  now :: "nat \<Rightarrow> string"
  ticks :: nat

definition EXIT_MSG :: string where
  "EXIT_MSG = ''@@@EXIT@@@''"

text \<open>What \<open>req_handler\<close> returns: status code, header pairs, body parts.\<close>

type_synonym reply = "int \<times> (string \<times> string) list option \<times> string list option"

section \<open>Logging\<close>

definition log :: "string \<Rightarrow> world \<Rightarrow> world" where
  "log msg w =
     w\<lparr>LOG_QUEUE := LOG_QUEUE w @ [now w (ticks w) @ '' '' @ msg], ticks := Suc (ticks w)\<rparr>"

definition stop_it :: "world \<Rightarrow> world" where
  "stop_it w = w\<lparr>LOG_QUEUE := LOG_QUEUE w @ [EXIT_MSG]\<rparr>"

text \<open>
  \<open>Logger.run\<close>, on the messages that are ever put on the queue, in queue order. It
  returns what is left on the queue, the lines written to the log file and the lines
  printed. \<open>LOG_QUEUE.get()\<close> on a queue that stays empty never returns: \<open>Blocked\<close>.
\<close>

datatype run_result = Returned | Blocked

fun Logger_run :: "string list \<Rightarrow> string list \<Rightarrow> string list
    \<Rightarrow> run_result \<times> string list \<times> string list \<times> string list" where
  "Logger_run [] logfile out = (Blocked, [], logfile, out)"
| "Logger_run (msg # q) logfile out =
     (if msg = EXIT_MSG then (Returned, q, logfile, out)
      else Logger_run q (logfile @ [msg @ [CHR 0x0A]]) (out @ [''@@@: '' @ msg]))"

section \<open>MockServer\<close>

subsection \<open>close\<close>

text \<open>
  The four statements of \<open>close\<close>, one state transformer each, in source order; \<open>close\<close>
  runs them all, \<open>close_upto k\<close> only the first \<open>k\<close>.
\<close>

definition closing_msg :: "mock_server \<Rightarrow> string" where
  "closing_msg self = [CHR 0x27] @ name self @ [CHR 0x27] @ '': Closing socket.''"

definition terminated_msg :: "mock_server \<Rightarrow> string" where
  "terminated_msg self = [CHR 0x27] @ name self @ [CHR 0x27] @ '': Terminated.''"

definition close_steps :: "(mock_server \<times> world \<Rightarrow> mock_server \<times> world) list" where
  "close_steps =
     [\<lambda>(self, w). (self, log (closing_msg self) w),
      \<lambda>(self, w). (self\<lparr>is_closed := True\<rparr>, w),
      \<lambda>(self, w). (self\<lparr>socket_open := False\<rparr>, w),
      \<lambda>(self, w). (self, log (terminated_msg self) w)]"

definition run_steps :: "('s \<Rightarrow> 's) list \<Rightarrow> 's \<Rightarrow> 's" where
  "run_steps fs s = fold (\<lambda>f x. f x) fs s"

definition close_upto :: "nat \<Rightarrow> mock_server \<Rightarrow> world \<Rightarrow> mock_server \<times> world" where
  "close_upto k self w = run_steps (take k close_steps) (self, w)"

definition close_from :: "nat \<Rightarrow> mock_server \<Rightarrow> world \<Rightarrow> mock_server \<times> world" where
  "close_from k self w = run_steps (drop k close_steps) (self, w)"

definition close :: "mock_server \<Rightarrow> world \<Rightarrow> mock_server \<times> world" where
  "close self w = run_steps close_steps (self, w)"

subsection \<open>run\<close>

text \<open>
  The \<open>except\<close> clause of \<open>run\<close>: \<open>serve_forever\<close> has raised \<open>e\<close> and the instance is in
  state \<open>self\<close>. \<open>Inl e\<close> is the exception raised again, out of \<open>run\<close>; \<open>Inr ()\<close> is \<open>run\<close>
  returning.
\<close>

definition run_except :: "mock_server \<Rightarrow> 'e \<Rightarrow> 'e + unit" where
  "run_except self e = (if \<not> is_closed self then Inl e else Inr ())"

subsection \<open>return_error\<close>

definition return_error :: "string \<Rightarrow> world \<Rightarrow> reply \<times> world" where
  "return_error msg w = ((400, None, Some [msg, [CHR 0x0A]]), log (''*** Error: '' @ msg) w)"

subsection \<open>req_handler\<close>

definition req_str_of :: "request \<Rightarrow> string" where
  "req_str_of rq = strip (upper (req_method rq)) @ '' '' @ strip (path rq)"

definition cmp_str_of :: "mock_server \<Rightarrow> string" where
  "cmp_str_of self = ''DELETE '' @ name self"

text \<open>Reading the request body: the length is \<open>int\<close> of the content-length header, if any.\<close>

definition read_body :: "request \<Rightarrow> error + string" where
  "read_body rq =
     (case (case req_headers rq ''content-length'' of None \<Rightarrow> Inr 0 | Some cl \<Rightarrow> py_int cl) of
        Inl e \<Rightarrow> Inl e
      | Inr l \<Rightarrow> Inr (file_read (req_body_file rq) l))"

text \<open>
  Finding the request in the list. \<open>first_index\<close> is the \<open>for i, r in enumerate(...)\<close>
  loop with its \<open>break\<close>; \<open>None\<close> is the loop's \<open>else\<close> branch. \<open>find_request\<close> gives the
  \<open>req_index\<close> found, \<open>None\<close> where the source calls \<open>return_error\<close>.
\<close>

fun first_index :: "request_spec list \<Rightarrow> string \<Rightarrow> nat \<Rightarrow> nat option" where
  "first_index [] req_str i = None"
| "first_index (r # rs) req_str i =
     (if req r = req_str then Some i else first_index rs req_str (Suc i))"

definition find_request :: "mock_server \<Rightarrow> string \<Rightarrow> error + nat option" where
  "find_request self req_str =
     (if requests_in_order self then
        (case index (requests self) 0 of
           Inl e \<Rightarrow> Inl e
         | Inr r \<Rightarrow> if req r \<noteq> req_str then Inr None else Inr (Some 0))
      else Inr (first_index (requests self) req_str 0))"

definition not_found_msg :: "mock_server \<Rightarrow> string \<Rightarrow> string" where
  "not_found_msg self req_str =
     [CHR 0x27] @ name self @ [CHR 0x27] @ '': ['' @ req_str @ ''] '' @
     (if requests_in_order self then ''Not the expected next request!''
      else ''Not an acceptable request!'')"

text \<open>Translating the header lines into pairs; the first line without a colon raises.\<close>

fun parse_headers :: "string list \<Rightarrow> error + (string \<times> string) list" where
  "parse_headers [] = Inr []"
| "parse_headers (h # hs) =
     (case split_colon h of
        Inl e \<Rightarrow> Inl e
      | Inr (hdr_name, hdr_value) \<Rightarrow>
          (case parse_headers hs of
             Inl e \<Rightarrow> Inl e
           | Inr hdrs \<Rightarrow> Inr ((ustrip hdr_name, ustrip hdr_value) # hdrs)))"

definition response_hdrs :: "response_spec \<Rightarrow> error + (string \<times> string) list" where
  "response_hdrs resp =
     (case headers resp of None \<Rightarrow> Inr [] | Some hs \<Rightarrow> if hs = [] then Inr [] else parse_headers hs)"

definition response_body :: "response_spec \<Rightarrow> string" where
  "response_body resp =
     (case body resp of None \<Rightarrow> [] | Some ls \<Rightarrow> if ls = [] then [] else join [CHR 0x0A] ls)"

definition resp_msg :: "mock_server \<Rightarrow> string \<Rightarrow> response_spec \<Rightarrow> string \<Rightarrow> string" where
  "resp_msg self req_str resp b =
     [CHR 0x27] @ name self @ [CHR 0x27] @ '': ['' @ req_str @ ''] - Resp: '' @
     str_int (status resp) @ '' ('' @ str_nat (length b) @ '')''"

definition all_processed_msg :: "mock_server \<Rightarrow> string" where
  "all_processed_msg self = [CHR 0x27] @ name self @ [CHR 0x27] @ '': All requests processed.''"

text \<open>
  The end of \<open>req_handler\<close>: in ordered mode the handled entry is popped, and the server
  closes itself when the list is empty.
\<close>

definition consume :: "mock_server \<Rightarrow> nat \<Rightarrow> world \<Rightarrow> error + (mock_server \<times> world)" where
  "consume self req_index w =
     (if requests_in_order self then
        (case pop (requests self) req_index of
           Inl e \<Rightarrow> Inl e
         | Inr rest \<Rightarrow>
             (let self1 = self\<lparr>requests := rest\<rparr> in
              if requests self1 = [] then Inr (close self1 (log (all_processed_msg self1) w))
              else Inr (self1, w)))
      else Inr (self, w))"

text \<open>
  The part of \<open>req_handler\<close> after the request was found at \<open>req_index\<close>. An exception
  leaves the state as it is at the raise.
\<close>

definition respond :: "mock_server \<Rightarrow> string \<Rightarrow> nat \<Rightarrow> world
    \<Rightarrow> (error + reply) \<times> mock_server \<times> world" where
  "respond self req_str req_index w =
     (case index (requests self) req_index of
        Inl e \<Rightarrow> (Inl e, self, w)
      | Inr entry \<Rightarrow>
          (let resp = response entry in
           case response_hdrs resp of
             Inl e \<Rightarrow> (Inl e, self, w)
           | Inr hdrs \<Rightarrow>
               (let b = response_body resp;
                    w1 = log (resp_msg self req_str resp b) w
                in case consume self req_index w1 of
                     Inl e \<Rightarrow> (Inl e, self, w1)
                   | Inr (self', w') \<Rightarrow> (Inr (status resp, Some hdrs, Some [b]), self', w'))))"

definition req_handler :: "mock_server \<Rightarrow> request \<Rightarrow> world
    \<Rightarrow> (error + reply) \<times> mock_server \<times> world" where
  "req_handler self rq w =
     (let req_str = req_str_of rq;
          cmp_str = cmp_str_of self
      in if req_str = cmp_str then
           (let (self', w') = close self w in (Inr (200, None, None), self', w'))
         else
           (case read_body rq of
              Inl e \<Rightarrow> (Inl e, self, w)
            | Inr rbody \<Rightarrow>
                (case find_request self req_str of
                   Inl e \<Rightarrow> (Inl e, self, w)
                 | Inr None \<Rightarrow>
                     (let (r, w') = return_error (not_found_msg self req_str) w
                      in (Inr r, self, w'))
                 | Inr (Some req_index) \<Rightarrow> respond self req_str req_index w)))"

section \<open>MyHandler\<close>

text \<open>
  \<open>_process_request\<close> sends what \<open>req_handler\<close> has returned. The calls into
  \<open>BaseHTTPRequestHandler\<close> are recorded in the order made, on the connection;
  \<open>req_handler\<close> itself has no access to the connection.
\<close>

datatype handler_call =
  Send_response int | Send_header string string | End_headers | Wfile_write string

record connection =
  protocol_version :: string
  server_version :: string
  sys_version :: string
  sent :: "handler_call list"

definition server_name_of :: "(string \<times> string) list option \<Rightarrow> string" where
  "server_name_of hdrs =
     (case hdrs of
        None \<Rightarrow> ''mock-server''
      | Some l \<Rightarrow>
          (case find (\<lambda>(hdr_name, hdr_value). lower hdr_name = ''server'') l of
             None \<Rightarrow> ''mock-server''
           | Some (hdr_name, hdr_value) \<Rightarrow> hdr_value))"

definition send_calls :: "reply \<Rightarrow> handler_call list" where
  "send_calls r =
     (case r of (code, hdrs, bdy) \<Rightarrow>
        [Send_response code] @
        (case hdrs of
           None \<Rightarrow> []
         | Some l \<Rightarrow>
             map (\<lambda>(hdr_name, hdr_value). Send_header hdr_name hdr_value)
               (filter (\<lambda>(hdr_name, hdr_value). lower hdr_name \<noteq> ''server'') l)) @
        [End_headers] @
        (case bdy of None \<Rightarrow> [] | Some ls \<Rightarrow> map Wfile_write ls))"

definition process_request :: "mock_server \<Rightarrow> request \<Rightarrow> connection \<Rightarrow> world
    \<Rightarrow> (error + unit) \<times> connection \<times> mock_server \<times> world" where
  "process_request self rq conn w =
     (let conn0 = conn\<lparr>protocol_version := ''HTTP/1.1''\<rparr>
      in case req_handler self rq w of
           (Inl e, self', w') \<Rightarrow> (Inl e, conn0, self', w')
         | (Inr r, self', w') \<Rightarrow>
             (Inr (),
              conn0\<lparr>server_version := server_name_of (fst (snd r)), sys_version := [],
                    sent := sent conn0 @ send_calls r\<rparr>,
              self', w'))"

section \<open>Threads and shutdown\<close>

text \<open>
  One thread per instance. \<open>serve_forever_raised i e\<close> is the moment \<open>serve_forever\<close>
  raises \<open>e\<close> in the thread of instance \<open>i\<close>: the \<open>except\<close> clause of its \<open>run\<close> decides
  whether \<open>run\<close> returns or the exception leaves \<open>run\<close>, which ends that thread.
\<close>

datatype 'e thread_state = Running | Finished | Died 'e

definition serve_forever_raised :: "nat \<Rightarrow> 'e \<Rightarrow> (mock_server \<times> 'e thread_state) list
    \<Rightarrow> (mock_server \<times> 'e thread_state) list" where
  "serve_forever_raised i e ts =
     (if i < length ts then
        ts[i := (fst (ts ! i),
                 case run_except (fst (ts ! i)) e of Inl e' \<Rightarrow> Died e' | Inr u \<Rightarrow> Finished)]
      else ts)"

text \<open>
  \<open>wait_for_servers_to_finish\<close>, on what the main thread meets while it waits: each
  \<open>Tick\<close> is one evaluation of the loop condition, on \<open>SERVERS\<close> as they are then; an
  \<open>Interrupt\<close> is the \<open>KeyboardInterrupt\<close>, after which every instance still open is
  closed. \<open>None\<close>: the loop is still polling.
\<close>

definition any_open :: "mock_server list \<Rightarrow> bool" where
  "any_open servers = list_ex (\<lambda>s. is_closed s = False) servers"

fun close_all :: "mock_server list \<Rightarrow> world \<Rightarrow> mock_server list \<times> world" where
  "close_all [] w = ([], w)"
| "close_all (ms # rest) w =
     (let (ms', w1) = (if \<not> is_closed ms then close ms w else (ms, w));
          (rest', w2) = close_all rest w1
      in (ms' # rest', w2))"

datatype poll = Tick "mock_server list" | Interrupt "mock_server list"

fun wait_for_servers_to_finish :: "poll list \<Rightarrow> world \<Rightarrow> (mock_server list \<times> world) option" where
  "wait_for_servers_to_finish [] w = None"
| "wait_for_servers_to_finish (Tick servers # ps) w =
     (if any_open servers then wait_for_servers_to_finish ps w
      else Some (servers, log ''All servers have finished...'' w))"
| "wait_for_servers_to_finish (Interrupt servers # ps) w =
     Some (close_all servers (log ''Shutting down...'' w))"

text \<open>The last three statements of the main program.\<close>

definition main_finish :: "poll list \<Rightarrow> world \<Rightarrow> (mock_server list \<times> world) option" where
  "main_finish ps w =
     (case wait_for_servers_to_finish ps w of
        None \<Rightarrow> None
      | Some (servers, w1) \<Rightarrow> Some (servers, stop_it (log ''Done!'' w1)))"

section \<open>Example configuration\<close>

definition ex_world :: world where
  "ex_world = \<lparr>LOG_QUEUE = [], now = (\<lambda>k. ''2016-05-01 12:00:00''), ticks = 0\<rparr>"

definition ex_A :: request_spec where
  "ex_A = \<lparr>req = ''GET /a'',
           response = \<lparr>status = 200, headers = Some [''Content-Type: text/plain''],
                       body = Some [''ok'']\<rparr>\<rparr>"

definition ex_B :: request_spec where
  "ex_B = \<lparr>req = ''POST /b'', response = \<lparr>status = 201, headers = None, body = None\<rparr>\<rparr>"

definition ex_server :: mock_server where
  "ex_server = \<lparr>name = ''s1'', port = 9001, schema = ''http'', address = ''127.0.0.1'',
                requests = [ex_A, ex_B], requests_in_order = True, socket_open = True,
                is_closed = False\<rparr>"

definition rq_a :: request where
  "rq_a = \<lparr>req_method = ''GET'', path = ''/a'', version = ''HTTP/1.1'',
           req_headers = Map.empty, req_body_file = []\<rparr>"

definition rq_b :: request where
  "rq_b = \<lparr>req_method = ''POST'', path = ''/b'', version = ''HTTP/1.1'',
           req_headers = [''content-length'' \<mapsto> ''2''], req_body_file = ''hi''\<rparr>"

definition rq_c :: request where
  "rq_c = \<lparr>req_method = ''GET'', path = ''/c'', version = ''HTTP/1.1'',
           req_headers = Map.empty, req_body_file = []\<rparr>"

definition rq_delete :: request where
  "rq_delete = \<lparr>req_method = ''DELETE'', path = ''s1'', version = ''HTTP/1.1'',
           req_headers = [''content-length'' \<mapsto> ''abc''], req_body_file = []\<rparr>"

definition ex_conn :: connection where
  "ex_conn = \<lparr>protocol_version = ''HTTP/1.0'', server_version = [], sys_version = [], sent = []\<rparr>"

definition ex_D :: request_spec where
  "ex_D = \<lparr>req = ''DELETE s1'', response = \<lparr>status = 204, headers = None, body = None\<rparr>\<rparr>"

text \<open>
  An interleaving of two threads on the example instance. The instance's thread runs the
  first two statements of \<open>close\<close> (\<open>race_mid\<close>); the main thread then evaluates its
  loop condition, finds every instance closed and runs to its end (\<open>race_main\<close>); the
  instance's thread then runs the rest of \<open>close\<close> (\<open>race_end\<close>).
\<close>

definition race_mid :: "mock_server \<times> world" where
  "race_mid = close_upto 2 ex_server ex_world"

definition race_main :: "(mock_server list \<times> world) option" where
  "race_main = main_finish [Tick [fst race_mid]] (snd race_mid)"

definition race_end :: "mock_server \<times> world" where
  "race_end =
     (case race_main of
        None \<Rightarrow> race_mid
      | Some (servers, w) \<Rightarrow> close_from 2 (fst race_mid) w)"

definition race_main_queue :: "string list" where
  "race_main_queue = (case race_main of None \<Rightarrow> [] | Some (servers, w) \<Rightarrow> LOG_QUEUE w)"

section \<open>Basic facts\<close>

subsection \<open>The steps of the handler\<close>

lemma close_eq:
  "close self w =
     (self\<lparr>is_closed := True, socket_open := False\<rparr>,
      log (terminated_msg self) (log (closing_msg self) w))"
  by (simp add: close_def run_steps_def close_steps_def terminated_msg_def)

lemma length_log [simp]: "length (LOG_QUEUE (log msg w)) = Suc (length (LOG_QUEUE w))"
  by (simp add: log_def)

lemma first_index_Some_iff:
  "first_index rs key n = Some i \<longleftrightarrow>
     n \<le> i \<and> i - n < length rs \<and> req (rs ! (i - n)) = key \<and> (\<forall>j < i - n. req (rs ! j) \<noteq> key)"
proof (induction rs arbitrary: n)
  case Nil
  then show ?case by simp
next
  case (Cons r rs)
  show ?case
  proof (cases "req r = key")
    case True
    have "(\<forall>j < i - n. req ((r # rs) ! j) \<noteq> key) \<longleftrightarrow> i - n = 0"
      using True by (cases "i - n") auto
    then show ?thesis using True by auto
  next
    case False
    have "first_index (r # rs) key n = Some i \<longleftrightarrow> first_index rs key (Suc n) = Some i"
      using False by simp
    also have "\<dots> \<longleftrightarrow> Suc n \<le> i \<and> i - Suc n < length rs \<and> req (rs ! (i - Suc n)) = key
        \<and> (\<forall>j < i - Suc n. req (rs ! j) \<noteq> key)"
      by (rule Cons.IH)
    also have "\<dots> \<longleftrightarrow> n \<le> i \<and> i - n < length (r # rs) \<and> req ((r # rs) ! (i - n)) = key
        \<and> (\<forall>j < i - n. req ((r # rs) ! j) \<noteq> key)"
    proof (cases "i \<le> n")
      case True
      then show ?thesis using False by auto
    next
      case gt: False
      then obtain d where d: "i - n = Suc d" "i - Suc n = d"
        by (metis Suc_diff_Suc not_le)
      have "(\<forall>j < Suc d. req ((r # rs) ! j) \<noteq> key) \<longleftrightarrow> (\<forall>j < d. req (rs ! j) \<noteq> key)"
        using False by (auto simp: less_Suc_eq_0_disj)
      then show ?thesis using gt d by auto
    qed
    finally show ?thesis .
  qed
qed

lemma first_index_None_iff:
  "first_index rs key n = None \<longleftrightarrow> (\<forall>r \<in> set rs. req r \<noteq> key)"
  by (induction rs arbitrary: n) auto

lemma respond_hdrs_raise:
  assumes "i < length (requests self)"
    and "response_hdrs (response (requests self ! i)) = Inl e"
  shows "respond self key i w = (Inl e, self, w)"
  using assms by (simp add: respond_def index_def)

lemma respond_unordered:
  assumes "\<not> requests_in_order self" and "i < length (requests self)"
    and "response_hdrs (response (requests self ! i)) = Inr hdrs"
  shows "respond self key i w =
     (Inr (status (response (requests self ! i)), Some hdrs,
           Some [response_body (response (requests self ! i))]),
      self,
      log (resp_msg self key (response (requests self ! i))
             (response_body (response (requests self ! i)))) w)"
  using assms by (simp add: respond_def index_def consume_def Let_def)

lemma respond_ordered_head:
  assumes "requests_in_order self" and "requests self = r # rest"
    and "response_hdrs (response r) = Inr hdrs"
  shows "respond self key 0 w =
     (Inr (status (response r), Some hdrs, Some [response_body (response r)]),
      (if rest = [] then
         close (self\<lparr>requests := rest\<rparr>)
           (log (all_processed_msg (self\<lparr>requests := rest\<rparr>))
              (log (resp_msg self key (response r) (response_body (response r))) w))
       else (self\<lparr>requests := rest\<rparr>,
             log (resp_msg self key (response r) (response_body (response r))) w)))"
  using assms by (simp add: respond_def index_def consume_def pop_def Let_def)

lemma find_request_ordered:
  assumes "requests_in_order self" and "requests self = r # rest"
  shows "find_request self key = Inr (if req r = key then Some 0 else None)"
  using assms by (simp add: find_request_def index_def)


lemma find_request_unordered:
  assumes "\<not> requests_in_order self"
  shows "find_request self key = Inr (first_index (requests self) key 0)"
  using assms by (simp add: find_request_def)

lemma req_handler_control:
  assumes "req_str_of rq = cmp_str_of self"
  shows "req_handler self rq w =
     (Inr (200, None, None), self\<lparr>is_closed := True, socket_open := False\<rparr>,
      log (terminated_msg self) (log (closing_msg self) w))"
  using assms by (simp add: req_handler_def close_eq)

lemma req_handler_read_raise:
  assumes "req_str_of rq \<noteq> cmp_str_of self" and "read_body rq = Inl e"
  shows "req_handler self rq w = (Inl e, self, w)"
  using assms by (simp add: req_handler_def)

lemma req_handler_find_raise:
  assumes "req_str_of rq \<noteq> cmp_str_of self" and "read_body rq = Inr b"
    and "find_request self (req_str_of rq) = Inl e"
  shows "req_handler self rq w = (Inl e, self, w)"
  using assms by (simp add: req_handler_def)

lemma req_handler_not_found:
  assumes "req_str_of rq \<noteq> cmp_str_of self" and "read_body rq = Inr b"
    and "find_request self (req_str_of rq) = Inr None"
  shows "req_handler self rq w =
     (Inr (400, None, Some [not_found_msg self (req_str_of rq), [CHR 0x0A]]), self,
      log (''*** Error: '' @ not_found_msg self (req_str_of rq)) w)"
  using assms by (simp add: req_handler_def return_error_def Let_def)

lemma req_handler_found:
  assumes "req_str_of rq \<noteq> cmp_str_of self" and "read_body rq = Inr b"
    and "find_request self (req_str_of rq) = Inr (Some i)"
  shows "req_handler self rq w = respond self (req_str_of rq) i w"
  using assms by (simp add: req_handler_def)

lemma read_body_cases:
  obtains e where "read_body rq = Inl e" | b where "read_body rq = Inr b"
  by (cases "read_body rq") auto

lemma response_hdrs_cases:
  obtains e where "response_hdrs resp = Inl e" | hdrs where "response_hdrs resp = Inr hdrs"
  by (cases "response_hdrs resp") auto

subsection \<open>The example requests\<close>

lemma req_str_rq_a: "req_str_of rq_a = ''GET /a''"
  unfolding rq_a_def by code_simp

lemma req_str_rq_b: "req_str_of rq_b = ''POST /b''"
  unfolding rq_b_def by code_simp

lemma req_str_rq_c: "req_str_of rq_c = ''GET /c''"
  unfolding rq_c_def by code_simp

lemma req_str_rq_delete: "req_str_of rq_delete = ''DELETE s1''"
  unfolding rq_delete_def by code_simp

lemma read_body_rq_a: "read_body rq_a = Inr []"
  by (simp add: read_body_def rq_a_def file_read_def)

lemma read_body_rq_b: "read_body rq_b = Inr ''hi''"
  unfolding rq_b_def by code_simp

lemma read_body_rq_delete: "read_body rq_delete = Inl ValueError"
  unfolding rq_delete_def by code_simp

lemma response_hdrs_ex_A:
  "response_hdrs (response ex_A) = Inr [(''Content-Type'', ''text/plain'')]"
  unfolding ex_A_def by code_simp

lemma response_hdrs_ex_B: "response_hdrs (response ex_B) = Inr []"
  by (simp add: response_hdrs_def ex_B_def)

subsection \<open>What can be raised, and when\<close>

text \<open>
  The body is read unless \<open>int\<close> rejects the content-length header; the header lines of
  a response are translated unless one of them has no colon. These are the only
  \<open>ValueError\<close>s.
\<close>

lemma read_body_ok_iff:
  "(\<exists>b. read_body rq = Inr b) \<longleftrightarrow>
     (case req_headers rq ''content-length'' of
        None \<Rightarrow> True
      | Some cl \<Rightarrow> \<exists>l. py_int cl = Inr l)"
  by (auto simp: read_body_def split: option.splits sum.splits)

lemma parse_headers_ok_iff:
  "(\<exists>hdrs. parse_headers hs = Inr hdrs) \<longleftrightarrow> (\<forall>h \<in> set hs. CHR '':'' \<in> set h)"
  by (induction hs) (auto simp: split_colon_def split: sum.splits prod.splits)

lemma response_hdrs_ok_iff:
  "(\<exists>hdrs. response_hdrs resp = Inr hdrs) \<longleftrightarrow>
     (\<forall>h \<in> set (case headers resp of None \<Rightarrow> [] | Some hs \<Rightarrow> hs). CHR '':'' \<in> set h)"
  using parse_headers_ok_iff [of "case headers resp of None \<Rightarrow> [] | Some hs \<Rightarrow> hs"]
  by (auto simp: response_hdrs_def split: option.splits)




lemma find_request_index:
  assumes "find_request self key = Inr (Some i)"
  shows "i < length (requests self) \<and> req (requests self ! i) = key"
proof (cases "requests_in_order self")
  case True
  then show ?thesis
    using assms by (auto simp: find_request_def index_def split: if_splits)
next
  case False
  then have "first_index (requests self) key 0 = Some i"
    using assms by (simp add: find_request_def)
  then show ?thesis by (simp add: first_index_Some_iff)
qed

lemma respond_requests:
  assumes "i < length (requests self)"
  shows "requests (fst (snd (respond self key i w))) = requests self
       \<or> requests_in_order self
         \<and> requests (fst (snd (respond self key i w))) = take i (requests self) @ drop (Suc i) (requests self)"
proof (cases rule: response_hdrs_cases [of "response (requests self ! i)"])
  case (1 e)
  from respond_hdrs_raise [OF assms 1] show ?thesis by simp
next
  case (2 hdrs)
  show ?thesis
  proof (cases "requests_in_order self")
    case False
    from respond_unordered [OF False assms 2] show ?thesis by simp
  next
    case True
    then show ?thesis
      using assms 2
      by (simp add: respond_def index_def consume_def pop_def Let_def close_eq)
  qed
qed

lemma respond_unordered_state:
  assumes "\<not> requests_in_order self" and "i < length (requests self)"
  shows "fst (snd (respond self key i w)) = self"
proof (cases rule: response_hdrs_cases [of "response (requests self ! i)"])
  case (1 e)
  from respond_hdrs_raise [OF assms(2) 1] show ?thesis by simp
next
  case (2 hdrs)
  from respond_unordered [OF assms 2] show ?thesis by simp
qed


subsection \<open>The outcomes of a request\<close>

lemma respond_cases:
  assumes "i < length (requests self)"
  obtains (raise) e where "respond self key i w = (Inl e, self, w)"
  | (plain) r where "respond self key i w =
        (Inr r, self\<lparr>requests := (if requests_in_order self
                                   then take i (requests self) @ drop (Suc i) (requests self)
                                   else requests self)\<rparr>,
         log (resp_msg self key (response (requests self ! i))
               (response_body (response (requests self ! i)))) w)"
      and "\<not> requests_in_order self \<or> take i (requests self) @ drop (Suc i) (requests self) \<noteq> []"
  | (last) r where "respond self key i w =
        (Inr r, self\<lparr>requests := [], is_closed := True, socket_open := False\<rparr>,
         log (terminated_msg self) (log (closing_msg self) (log (all_processed_msg self)
           (log (resp_msg self key (response (requests self ! i))
               (response_body (response (requests self ! i)))) w))))"
      and "requests_in_order self" and "take i (requests self) @ drop (Suc i) (requests self) = []"
proof (cases rule: response_hdrs_cases [of "response (requests self ! i)"])
  case (1 e)
  from respond_hdrs_raise [OF assms 1] raise show ?thesis by blast
next
  case (2 hdrs)
  show ?thesis
  proof (cases "requests_in_order self")
    case False
    have "self\<lparr>requests := requests self\<rparr> = self" by simp
    with respond_unordered [OF False assms 2, of key w] False plain show ?thesis
      by simp
  next
    case True
    define rest where "rest = take i (requests self) @ drop (Suc i) (requests self)"
    define w1 where "w1 = log (resp_msg self key (response (requests self ! i))
               (response_body (response (requests self ! i)))) w"
    have p: "pop (requests self) i = Inr rest"
      using assms by (simp add: pop_def rest_def)
    have c: "consume self i w1 =
        Inr (if rest = [] then close (self\<lparr>requests := rest\<rparr>)
                                 (log (all_processed_msg (self\<lparr>requests := rest\<rparr>)) w1)
             else (self\<lparr>requests := rest\<rparr>, w1))"
      using True by (simp add: consume_def p Let_def)
    have r: "respond self key i w =
        (Inr (status (response (requests self ! i)), Some hdrs,
              Some [response_body (response (requests self ! i))]),
         (if rest = [] then close (self\<lparr>requests := rest\<rparr>)
                                 (log (all_processed_msg (self\<lparr>requests := rest\<rparr>)) w1)
             else (self\<lparr>requests := rest\<rparr>, w1)))"
      using assms 2 by (simp add: respond_def index_def Let_def c [unfolded w1_def] w1_def)
    show ?thesis
    proof (cases "rest = []")
      case e: True
      have "respond self key i w =
        (Inr (status (response (requests self ! i)), Some hdrs,
              Some [response_body (response (requests self ! i))]),
         self\<lparr>requests := [], is_closed := True, socket_open := False\<rparr>,
         log (terminated_msg self) (log (closing_msg self) (log (all_processed_msg self) w1)))"
        using e by (simp add: r close_eq terminated_msg_def closing_msg_def all_processed_msg_def)
      with last True e show ?thesis by (simp add: rest_def w1_def)
    next
      case ne: False
      have "respond self key i w =
        (Inr (status (response (requests self ! i)), Some hdrs,
              Some [response_body (response (requests self ! i))]),
         self\<lparr>requests := rest\<rparr>, w1)"
        using ne by (simp add: r)
      with plain True ne show ?thesis by (simp add: rest_def w1_def)
    qed
  qed
qed

lemma find_request_ordered_index:
  assumes "requests_in_order self" and "find_request self key = Inr (Some i)"
  shows "i = 0"
  using assms by (auto simp: find_request_def index_def split: if_splits)

lemma req_handler_cases:
  obtains (control) "req_str_of rq = cmp_str_of self"
      and "req_handler self rq w =
             (Inr (200, None, None), self\<lparr>is_closed := True, socket_open := False\<rparr>,
              log (terminated_msg self) (log (closing_msg self) w))"
  | (raise) e where "req_str_of rq \<noteq> cmp_str_of self"
      and "req_handler self rq w = (Inl e, self, w)"
  | (unmatched) "req_str_of rq \<noteq> cmp_str_of self"
      and "find_request self (req_str_of rq) = Inr None"
      and "req_handler self rq w =
             (Inr (400, None, Some [not_found_msg self (req_str_of rq), [CHR 0x0A]]), self,
              log (''*** Error: '' @ not_found_msg self (req_str_of rq)) w)"
  | (matched) i r where "req_str_of rq \<noteq> cmp_str_of self"
      and "find_request self (req_str_of rq) = Inr (Some i)"
      and "req_handler self rq w =
             (Inr r, self\<lparr>requests := (if requests_in_order self then tl (requests self)
                                        else requests self)\<rparr>,
              log (resp_msg self (req_str_of rq) (response (requests self ! i))
                     (response_body (response (requests self ! i)))) w)"
      and "\<not> requests_in_order self \<or> tl (requests self) \<noteq> []"
  | (exhausted) r where "req_str_of rq \<noteq> cmp_str_of self"
      and "find_request self (req_str_of rq) = Inr (Some 0)"
      and "req_handler self rq w =
             (Inr r, self\<lparr>requests := [], is_closed := True, socket_open := False\<rparr>,
              log (terminated_msg self) (log (closing_msg self) (log (all_processed_msg self)
                (log (resp_msg self (req_str_of rq) (response (requests self ! 0))
                       (response_body (response (requests self ! 0)))) w))))"
      and "requests_in_order self" and "tl (requests self) = []"
proof (cases "req_str_of rq = cmp_str_of self")
  case True
  with control req_handler_control [OF True] show ?thesis by blast
next
  case nc: False
  show ?thesis
  proof (cases rule: read_body_cases [of rq])
    case (1 e)
    from raise [OF nc req_handler_read_raise [OF nc 1]] show ?thesis .
  next
    case (2 b)
    show ?thesis
    proof (cases "find_request self (req_str_of rq)")
      case (Inl e)
      from raise [OF nc req_handler_find_raise [OF nc 2 Inl]] show ?thesis .
    next
      case (Inr found)
      show ?thesis
      proof (cases found)
        case None
        with Inr have f: "find_request self (req_str_of rq) = Inr None" by simp
        from unmatched [OF nc f req_handler_not_found [OF nc 2 f]] show ?thesis .
      next
        case (Some i)
        with Inr have f: "find_request self (req_str_of rq) = Inr (Some i)" by simp
        then have il: "i < length (requests self)" using find_request_index by blast
        have i0: "requests_in_order self \<Longrightarrow> i = 0"
          using find_request_ordered_index f by blast
        have tk: "requests_in_order self \<Longrightarrow>
            take i (requests self) @ drop (Suc i) (requests self) = tl (requests self)"
          using i0 by (simp add: drop_Suc)
        note h = req_handler_found [OF nc 2 f]
        show ?thesis
        proof (rule respond_cases [OF il, of "req_str_of rq" w], goal_cases)
          case (1 e)
          with h have "req_handler self rq w = (Inl e, self, w)" by simp
          from \<open>\<And>e. \<lbrakk>req_str_of rq \<noteq> cmp_str_of self; req_handler self rq w = (Inl e, self, w)\<rbrakk>
              \<Longrightarrow> thesis\<close> [OF nc this]
          show ?thesis .
        next
          case plain: (2 r)
          have "req_handler self rq w =
             (Inr r, self\<lparr>requests := (if requests_in_order self then tl (requests self)
                                        else requests self)\<rparr>,
              log (resp_msg self (req_str_of rq) (response (requests self ! i))
                     (response_body (response (requests self ! i)))) w)"
            using h plain(1) tk by (cases "requests_in_order self") simp_all
          moreover have "\<not> requests_in_order self \<or> tl (requests self) \<noteq> []"
            using plain(2) tk by auto
          ultimately show ?thesis using matched [OF nc f] by blast
        next
          case last: (3 r)
          have i: "i = 0" using i0 last(2) by simp
          have "tl (requests self) = []" using last(2,3) tk by simp
          with exhausted [OF nc] f h last(1,2) i show ?thesis by simp
        qed
      qed
    qed
  qed
qed

text \<open>
  Where the claim C5 holds: a request that reaches the match and matches no entry, the
  ordered script being non-empty, is answered 400 and logged once, and nothing else
  changes.
\<close>

lemma unmatched_request_answered_400:
  assumes "req_str_of rq \<noteq> cmp_str_of self" and "read_body rq = Inr b"
    and "\<forall>r \<in> set (requests self). req r \<noteq> req_str_of rq"
    and "requests_in_order self \<longrightarrow> requests self \<noteq> []"
  shows "req_handler self rq w =
           (Inr (400, None, Some [not_found_msg self (req_str_of rq), [CHR 0x0A]]), self,
            log (''*** Error: '' @ not_found_msg self (req_str_of rq)) w)"
proof -
  have "find_request self (req_str_of rq) = Inr None"
  proof (cases "requests_in_order self")
    case True
    with assms(4) obtain r rest where rr: "requests self = r # rest"
      by (cases "requests self") auto
    with assms(3) have "req r \<noteq> req_str_of rq" by simp
    with find_request_ordered [OF True rr] show ?thesis by simp
  next
    case False
    with assms(3) show ?thesis
      by (simp add: find_request_unordered first_index_None_iff)
  qed
  from req_handler_not_found [OF assms(1,2) this] show ?thesis .
qed

subsection \<open>The statements of close\<close>

lemma close_split:
  "close self w = (case close_upto k self w of (s, w') \<Rightarrow> close_from k s w')"
proof -
  have "run_steps close_steps (self, w)
      = run_steps (drop k close_steps) (run_steps (take k close_steps) (self, w))"
  proof -
    have "run_steps (take k close_steps @ drop k close_steps) (self, w)
        = run_steps (drop k close_steps) (run_steps (take k close_steps) (self, w))"
      unfolding run_steps_def by (simp only: fold_append comp_apply)
    then show ?thesis by (simp only: append_take_drop_id)
  qed
  then show ?thesis
    by (simp add: close_def close_upto_def close_from_def split: prod.splits)
qed

lemma close_upto_0: "close_upto 0 self w = (self, w)"
  by (simp add: close_upto_def run_steps_def)

lemma close_upto_1: "close_upto (Suc 0) self w = (self, log (closing_msg self) w)"
  by (simp add: close_upto_def run_steps_def close_steps_def)

lemma close_upto_2:
  "close_upto 2 self w = (self\<lparr>is_closed := True\<rparr>, log (closing_msg self) w)"
  by (simp add: close_upto_def run_steps_def close_steps_def numeral_2_eq_2)

lemma close_upto_3:
  "close_upto 3 self w =
     (self\<lparr>is_closed := True, socket_open := False\<rparr>, log (closing_msg self) w)"
  by (simp add: close_upto_def run_steps_def close_steps_def numeral_3_eq_3)

lemma close_upto_ge_4:
  assumes "4 \<le> k"
  shows "close_upto k self w = close self w"
proof -
  have "length close_steps = 4" by (simp add: close_steps_def)
  with assms have "take k close_steps = close_steps" by simp
  then show ?thesis by (simp add: close_upto_def close_def)
qed

lemma close_upto_invariant:
  assumes "socket_open self" and "\<not> socket_open (fst (close_upto k self w))"
  shows "is_closed (fst (close_upto k self w))"
proof -
  consider "k = 0" | "k = Suc 0" | "k = 2" | "k = 3" | "4 \<le> k" by linarith
  then show ?thesis
  proof cases
    case 1
    with assms show ?thesis by (simp add: close_upto_0)
  next
    case 2
    with assms show ?thesis by (simp add: close_upto_1)
  next
    case 3
    then show ?thesis by (simp add: close_upto_2)
  next
    case 4
    then show ?thesis by (simp add: close_upto_3)
  next
    case 5
    then show ?thesis by (simp add: close_upto_ge_4 close_eq)
  qed
qed

subsection \<open>The log queue\<close>

lemma Logger_run_eq:
  "Logger_run q logfile out =
     (if EXIT_MSG \<in> set q then Returned else Blocked,
      if EXIT_MSG \<in> set q then tl (dropWhile (\<lambda>m. m \<noteq> EXIT_MSG) q) else [],
      logfile @ map (\<lambda>m. m @ [CHR 0x0A]) (takeWhile (\<lambda>m. m \<noteq> EXIT_MSG) q),
      out @ map (\<lambda>m. ''@@@: '' @ m) (takeWhile (\<lambda>m. m \<noteq> EXIT_MSG) q))"
  by (induction q arbitrary: logfile out) auto

lemma sentinel_not_written:
  "EXIT_MSG @ [CHR 0x0A] \<notin> set (map (\<lambda>m. m @ [CHR 0x0A]) (takeWhile (\<lambda>m. m \<noteq> EXIT_MSG) q))"
proof
  assume "EXIT_MSG @ [CHR 0x0A] \<in> set (map (\<lambda>m. m @ [CHR 0x0A]) (takeWhile (\<lambda>m. m \<noteq> EXIT_MSG) q))"
  then obtain m where "m \<in> set (takeWhile (\<lambda>m. m \<noteq> EXIT_MSG) q)" "EXIT_MSG = m"
    by auto
  then show False by (auto dest: set_takeWhileD)
qed

lemma logged_not_sentinel: "ts @ '' '' @ msg \<noteq> EXIT_MSG"
proof
  assume "ts @ '' '' @ msg = EXIT_MSG"
  then have "set (ts @ '' '' @ msg) = set EXIT_MSG" by simp
  then have "CHR '' '' \<in> set EXIT_MSG" by auto
  then show False by (simp add: EXIT_MSG_def)
qed

lemma log_queue: "LOG_QUEUE (log msg w) = LOG_QUEUE w @ [now w (ticks w) @ '' '' @ msg]"
  by (simp add: log_def)

lemma log_adds_no_sentinel:
  "\<exists>m. LOG_QUEUE (log msg w) = LOG_QUEUE w @ [m] \<and> m \<noteq> EXIT_MSG"
  using logged_not_sentinel [of "now w (ticks w)" msg] by (simp add: log_queue)

lemma close_adds_no_sentinel:
  "\<exists>ms. LOG_QUEUE (snd (close self w)) = LOG_QUEUE w @ ms \<and> EXIT_MSG \<notin> set ms"
proof -
  obtain m1 where m1: "LOG_QUEUE (log (closing_msg self) w) = LOG_QUEUE w @ [m1]" "m1 \<noteq> EXIT_MSG"
    using log_adds_no_sentinel by blast
  obtain m2 where m2: "LOG_QUEUE (log (terminated_msg self) (log (closing_msg self) w))
      = LOG_QUEUE (log (closing_msg self) w) @ [m2]" "m2 \<noteq> EXIT_MSG"
    using log_adds_no_sentinel by blast
  have "LOG_QUEUE (snd (close self w)) = LOG_QUEUE w @ [m1, m2]"
    by (simp add: close_eq m1 m2)
  moreover have "EXIT_MSG \<notin> set [m1, m2]" using m1 m2 by auto
  ultimately show ?thesis by blast
qed

lemma close_all_closes:
  "\<not> any_open (fst (close_all servers w))
   \<and> (\<exists>ms. LOG_QUEUE (snd (close_all servers w)) = LOG_QUEUE w @ ms \<and> EXIT_MSG \<notin> set ms)"
proof (induction servers arbitrary: w)
  case Nil
  then show ?case by (simp add: any_open_def)
next
  case (Cons ms rest)
  define s1 where "s1 = (if \<not> is_closed ms then close ms w else (ms, w))"
  have c1: "is_closed (fst s1)" by (simp add: s1_def close_eq)
  have q1: "\<exists>xs. LOG_QUEUE (snd s1) = LOG_QUEUE w @ xs \<and> EXIT_MSG \<notin> set xs"
    using close_adds_no_sentinel [of ms w] by (auto simp: s1_def)
  then obtain xs where xs: "LOG_QUEUE (snd s1) = LOG_QUEUE w @ xs" "EXIT_MSG \<notin> set xs"
    by blast
  from Cons.IH [of "snd s1"] obtain ys where
    ih: "\<not> any_open (fst (close_all rest (snd s1)))"
      "LOG_QUEUE (snd (close_all rest (snd s1))) = LOG_QUEUE (snd s1) @ ys" "EXIT_MSG \<notin> set ys"
    by blast
  have e: "close_all (ms # rest) w =
      (fst s1 # fst (close_all rest (snd s1)), snd (close_all rest (snd s1)))"
    by (simp add: s1_def split: prod.splits)
  have "\<not> any_open (fst s1 # fst (close_all rest (snd s1)))"
    using c1 ih(1) by (simp add: any_open_def)
  then have "\<not> any_open (fst (close_all (ms # rest) w))"
    unfolding e fst_conv .
  moreover have "LOG_QUEUE (snd (close_all rest (snd s1))) = LOG_QUEUE w @ (xs @ ys)"
    using xs ih(2) by simp
  then have "LOG_QUEUE (snd (close_all (ms # rest) w)) = LOG_QUEUE w @ (xs @ ys)"
    unfolding e snd_conv .
  moreover have "EXIT_MSG \<notin> set (xs @ ys)" using xs ih(3) by simp
  ultimately show ?case by blast
qed

lemma wait_for_servers_to_finish_result:
  assumes "wait_for_servers_to_finish ps w = Some (servers, w')"
  shows "\<not> any_open servers
       \<and> (\<exists>ms. LOG_QUEUE w' = LOG_QUEUE w @ ms \<and> EXIT_MSG \<notin> set ms)"
  using assms
proof (induction ps w rule: wait_for_servers_to_finish.induct)
  case (1 w)
  then show ?case by simp
next
  case (2 srv ps w)
  show ?case
  proof (cases "any_open srv")
    case True
    with 2 show ?thesis by simp
  next
    case False
    with "2.prems" have "servers = srv" "w' = log ''All servers have finished...'' w"
      by simp_all
    with False log_adds_no_sentinel [of "''All servers have finished...''" w]
    show ?thesis by auto
  qed
next
  case (3 srv ps w)
  define w1 where "w1 = log ''Shutting down...'' w"
  from "3.prems" have r: "close_all srv w1 = (servers, w')" by (simp add: w1_def)
  obtain m where m: "LOG_QUEUE w1 = LOG_QUEUE w @ [m]" "m \<noteq> EXIT_MSG"
    using log_adds_no_sentinel unfolding w1_def by blast
  from close_all_closes [of srv w1] r obtain ms where
    "\<not> any_open servers" "LOG_QUEUE w' = LOG_QUEUE w1 @ ms" "EXIT_MSG \<notin> set ms"
    by auto
  then have "LOG_QUEUE w' = LOG_QUEUE w @ (m # ms)" "EXIT_MSG \<notin> set (m # ms)"
    using m by auto
  with \<open>\<not> any_open servers\<close> show ?case by blast
qed

lemma main_finish_result:
  assumes "main_finish ps w = Some (servers, w')"
  shows "\<not> any_open servers
       \<and> (\<exists>ms. LOG_QUEUE w' = LOG_QUEUE w @ ms @ [EXIT_MSG] \<and> EXIT_MSG \<notin> set ms)"
proof -
  from assms obtain w1 where
    wt: "wait_for_servers_to_finish ps w = Some (servers, w1)"
    and w': "w' = stop_it (log ''Done!'' w1)"
    by (auto simp: main_finish_def split: option.splits)
  from wait_for_servers_to_finish_result [OF wt] obtain ms where
    ms: "\<not> any_open servers" "LOG_QUEUE w1 = LOG_QUEUE w @ ms" "EXIT_MSG \<notin> set ms"
    by blast
  obtain m where m: "LOG_QUEUE (log ''Done!'' w1) = LOG_QUEUE w1 @ [m]" "m \<noteq> EXIT_MSG"
    using log_adds_no_sentinel by blast
  have "LOG_QUEUE w' = LOG_QUEUE w @ (ms @ [m]) @ [EXIT_MSG]"
    by (simp add: w' stop_it_def m ms)
  moreover have "EXIT_MSG \<notin> set (ms @ [m])" using ms m by simp
  ultimately show ?thesis using ms(1) by blast
qed

section \<open>The claims\<close>



text \<open>
  Claim C2. Whatever the mode and the script, a request whose key is \<open>DELETE <name>\<close>
  closes the instance and is answered with status 200, no headers and no body. The
  script is not consulted: it is left as it is, and neither an empty script nor a
  content-length that cannot be read changes the outcome.
\<close>
theorem control_command_closes:
  assumes "req_str_of rq = ''DELETE '' @ name self"
  shows "req_handler self rq w =
           (Inr (200, None, None), self\<lparr>is_closed := True, socket_open := False\<rparr>,
            log (terminated_msg self) (log (closing_msg self) w))
       \<and> process_request self rq conn w =
           (Inr (),
            conn\<lparr>protocol_version := ''HTTP/1.1'', server_version := ''mock-server'',
                 sys_version := [], sent := sent conn @ [Send_response 200, End_headers]\<rparr>,
            self\<lparr>is_closed := True, socket_open := False\<rparr>,
            log (terminated_msg self) (log (closing_msg self) w))"
proof -
  have c: "req_str_of rq = cmp_str_of self"
    using assms by (simp add: cmp_str_of_def)
  note h = req_handler_control [OF c]
  show ?thesis
    by (simp add: h process_request_def send_calls_def server_name_of_def)
qed

theorem control_command_closes_witness:
  "req_str_of rq_delete = ''DELETE '' @ name (ex_server\<lparr>requests := []\<rparr>)
   \<and> read_body rq_delete = Inl ValueError
   \<and> fst (req_handler (ex_server\<lparr>requests := []\<rparr>) rq_delete ex_world) = Inr (200, None, None)
   \<and> is_closed (fst (snd (req_handler (ex_server\<lparr>requests := []\<rparr>) rq_delete ex_world)))
   \<and> sent (fst (snd (process_request (ex_server\<lparr>requests := []\<rparr>) rq_delete ex_conn ex_world)))
       = [Send_response 200, End_headers]"
proof -
  have h: "req_str_of rq_delete = ''DELETE '' @ name (ex_server\<lparr>requests := []\<rparr>)"
    by (simp add: req_str_rq_delete ex_server_def)
  from control_command_closes [OF h, of ex_world ex_conn] h read_body_rq_delete
  show ?thesis by (simp add: ex_conn_def)
qed

text \<open>
  Claim C3. In unordered mode the match scans the script in script order: it finds index
  \<open>i\<close> exactly when entry \<open>i\<close> is the first whose request string is the key, and finds
  nothing exactly when no entry has the key. A request that reaches the match is answered
  with the response of the entry found. No request changes the script, and a request
  other than the control command leaves the whole instance as it is, so the same request
  matches again and the instance does not close itself.
\<close>
theorem unordered_first_match_no_mutation:
  assumes "\<not> requests_in_order self"
  shows "((find_request self key = Inr (Some i)) =
            (i < length (requests self) \<and> req (requests self ! i) = key
             \<and> (\<forall>j<i. req (requests self ! j) \<noteq> key)))
       \<and> ((find_request self key = Inr None) = (\<forall>r \<in> set (requests self). req r \<noteq> key))
       \<and> (req_str_of rq \<noteq> cmp_str_of self \<and> read_body rq = Inr b
            \<and> find_request self (req_str_of rq) = Inr (Some k)
            \<and> response_hdrs (response (requests self ! k)) = Inr hdrs
          \<longrightarrow> fst (req_handler self rq w) =
                Inr (status (response (requests self ! k)), Some hdrs,
                     Some [response_body (response (requests self ! k))]))
       \<and> requests (fst (snd (req_handler self rq w))) = requests self
       \<and> (req_str_of rq \<noteq> cmp_str_of self \<longrightarrow> fst (snd (req_handler self rq w)) = self)"
proof -
  note f = find_request_unordered [OF assms]
  have a: "(find_request self key = Inr (Some i)) =
            (i < length (requests self) \<and> req (requests self ! i) = key
             \<and> (\<forall>j<i. req (requests self ! j) \<noteq> key))"
    by (simp add: f first_index_Some_iff)
  have b: "(find_request self key = Inr None) = (\<forall>r \<in> set (requests self). req r \<noteq> key)"
    by (simp add: f first_index_None_iff)
  have c: "fst (req_handler self rq w) =
                Inr (status (response (requests self ! k)), Some hdrs,
                     Some [response_body (response (requests self ! k))])"
    if "req_str_of rq \<noteq> cmp_str_of self" "read_body rq = Inr b"
      "find_request self (req_str_of rq) = Inr (Some k)"
      "response_hdrs (response (requests self ! k)) = Inr hdrs"
  proof -
    have "k < length (requests self)"
      using find_request_index [OF that(3)] by simp
    from respond_unordered [OF assms this that(4)] req_handler_found [OF that(1,2,3)]
    show ?thesis by simp
  qed
  have d: "fst (snd (req_handler self rq w)) = self" if nc: "req_str_of rq \<noteq> cmp_str_of self"
  proof (cases rule: read_body_cases [of rq])
    case (1 e)
    then show ?thesis by (simp add: req_handler_read_raise [OF nc])
  next
    case (2 b)
    show ?thesis
    proof (cases "first_index (requests self) (req_str_of rq) 0")
      case None
      then have "find_request self (req_str_of rq) = Inr None" by (simp add: f)
      from req_handler_not_found [OF nc 2 this] show ?thesis by simp
    next
      case (Some n)
      then have fs: "find_request self (req_str_of rq) = Inr (Some n)" by (simp add: f)
      then have "n < length (requests self)" using find_request_index by blast
      from respond_unordered_state [OF assms this] req_handler_found [OF nc 2 fs]
      show ?thesis by simp
    qed
  qed
  have e: "requests (fst (snd (req_handler self rq w))) = requests self"
  proof (cases "req_str_of rq = cmp_str_of self")
    case True
    then show ?thesis by (simp add: req_handler_control)
  next
    case False
    then show ?thesis by (simp add: d)
  qed
  from a b c d e show ?thesis by blast
qed

theorem unordered_first_match_no_mutation_witness:
  "\<not> requests_in_order (ex_server\<lparr>requests_in_order := False\<rparr>)
   \<and> find_request (ex_server\<lparr>requests_in_order := False\<rparr>) ''POST /b'' = Inr (Some 1)
   \<and> find_request (ex_server\<lparr>requests_in_order := False\<rparr>) ''GET /c'' = Inr None
   \<and> fst (req_handler (ex_server\<lparr>requests_in_order := False\<rparr>) rq_b ex_world)
        = Inr (201, Some [], Some [[]])
   \<and> fst (snd (req_handler (ex_server\<lparr>requests_in_order := False\<rparr>) rq_b ex_world))
        = ex_server\<lparr>requests_in_order := False\<rparr>"
proof -
  let ?s = "ex_server\<lparr>requests_in_order := False\<rparr>"
  have u: "\<not> requests_in_order ?s" by simp
  have r: "requests ?s = [ex_A, ex_B]" by (simp add: ex_server_def)
  have nc: "req_str_of rq_b \<noteq> cmp_str_of ?s"
    by (simp add: req_str_rq_b cmp_str_of_def ex_server_def)
  have k: "req ex_A = ''GET /a''" "req ex_B = ''POST /b''"
    by (simp_all add: ex_A_def ex_B_def)
  have b: "response_body (response ex_B) = []" "status (response ex_B) = 201"
    by (simp_all add: response_body_def ex_B_def)
  note t = unordered_first_match_no_mutation [OF u]
  have f1: "find_request ?s ''POST /b'' = Inr (Some 1)"
    using t [where key = "''POST /b''" and i = 1] r k by (simp add: less_Suc_eq_0_disj)
  have f2: "find_request ?s ''GET /c'' = Inr None"
    using t [where key = "''GET /c''"] r k by simp
  from t [where rq = rq_b and b = "''hi''" and k = 1 and hdrs = "[]" and w = ex_world]
    f1 f2 u r nc b read_body_rq_b response_hdrs_ex_B req_str_rq_b
  show ?thesis by simp
qed



text \<open>
  Claim C10. A script entry \<open>k\<close> whose request string is \<open>DELETE <name>\<close> is
  unreachable. A request with that key takes the control branch: status 200, no body, the
  instance closed, the script untouched. A request with any other key is never matched
  with entry \<open>k\<close>. No request consumes entry \<open>k\<close>: the script stays as it is, or
  it loses its head, which is then another entry.
\<close>
theorem control_entry_unreachable:
  assumes "k < length (requests self)" and "req (requests self ! k) = cmp_str_of self"
  shows "(req_str_of rq = cmp_str_of self \<longrightarrow>
            req_handler self rq w =
              (Inr (200, None, None), self\<lparr>is_closed := True, socket_open := False\<rparr>,
               log (terminated_msg self) (log (closing_msg self) w)))
       \<and> (req_str_of rq \<noteq> cmp_str_of self \<longrightarrow> find_request self (req_str_of rq) \<noteq> Inr (Some k))
       \<and> (requests (fst (snd (req_handler self rq w))) = requests self
           \<or> 0 < k \<and> requests (fst (snd (req_handler self rq w))) = tl (requests self))"
proof -
  have a: "req_handler self rq w =
              (Inr (200, None, None), self\<lparr>is_closed := True, socket_open := False\<rparr>,
               log (terminated_msg self) (log (closing_msg self) w))"
    if "req_str_of rq = cmp_str_of self"
    by (rule req_handler_control [OF that])
  have b: "find_request self (req_str_of rq) \<noteq> Inr (Some k)"
    if "req_str_of rq \<noteq> cmp_str_of self"
    using find_request_index [of self "req_str_of rq" k] assms(2) that by auto
  have c: "requests (fst (snd (req_handler self rq w))) = requests self
           \<or> 0 < k \<and> requests (fst (snd (req_handler self rq w))) = tl (requests self)"
  proof (cases "req_str_of rq = cmp_str_of self")
    case True
    then show ?thesis by (simp add: a)
  next
    case nc: False
    show ?thesis
    proof (cases rule: read_body_cases [of rq])
      case (1 e)
      then show ?thesis by (simp add: req_handler_read_raise [OF nc])
    next
      case (2 bd)
      show ?thesis
      proof (cases "find_request self (req_str_of rq)")
        case (Inl e)
        from req_handler_find_raise [OF nc 2 Inl] show ?thesis by simp
      next
        case (Inr found)
        show ?thesis
        proof (cases found)
          case None
          with Inr have "find_request self (req_str_of rq) = Inr None" by simp
          from req_handler_not_found [OF nc 2 this] show ?thesis by simp
        next
          case (Some i)
          with Inr have fs: "find_request self (req_str_of rq) = Inr (Some i)" by simp
          note fi = find_request_index [OF fs]
          then have il: "i < length (requests self)" by simp
          have h: "req_handler self rq w = respond self (req_str_of rq) i w"
            by (rule req_handler_found [OF nc 2 fs])
          show ?thesis
          proof (cases "requests_in_order self")
            case False
            from respond_unordered_state [OF False il] h show ?thesis by simp
          next
            case True
            have i0: "i = 0"
              using fs True by (auto simp: find_request_def index_def split: if_splits)
            have "k \<noteq> 0"
            proof
              assume "k = 0"
              with fi i0 assms(2) have "req_str_of rq = cmp_str_of self" by simp
              with nc show False by simp
            qed
            moreover have "take i (requests self) @ drop (Suc i) (requests self) = tl (requests self)"
              using i0 by (simp add: drop_Suc)
            ultimately show ?thesis
              using respond_requests [OF il, of "req_str_of rq" w] h by auto
          qed
        qed
      qed
    qed
  qed
  from a b c show ?thesis by blast
qed

theorem control_entry_unreachable_witness:
  "0 < length (requests (ex_server\<lparr>requests := [ex_D, ex_A]\<rparr>))
   \<and> req (requests (ex_server\<lparr>requests := [ex_D, ex_A]\<rparr>) ! 0)
       = cmp_str_of (ex_server\<lparr>requests := [ex_D, ex_A]\<rparr>)
   \<and> fst (req_handler (ex_server\<lparr>requests := [ex_D, ex_A]\<rparr>) rq_delete ex_world)
       = Inr (200, None, None)
   \<and> requests (fst (snd (req_handler (ex_server\<lparr>requests := [ex_D, ex_A]\<rparr>) rq_delete ex_world)))
       = [ex_D, ex_A]
   \<and> find_request (ex_server\<lparr>requests := [ex_D, ex_A]\<rparr>) (req_str_of rq_a) \<noteq> Inr (Some 0)
   \<and> requests (fst (snd (req_handler (ex_server\<lparr>requests := [ex_D, ex_A]\<rparr>) rq_a ex_world)))
       = [ex_D, ex_A]"
proof -
  let ?s = "ex_server\<lparr>requests := [ex_D, ex_A]\<rparr>"
  have l: "0 < length (requests ?s)" by simp
  have c: "cmp_str_of ?s = ''DELETE s1''" by (simp add: cmp_str_of_def ex_server_def)
  have e: "req (requests ?s ! 0) = cmp_str_of ?s"
    by (simp add: cmp_str_of_def ex_server_def ex_D_def)
  from control_entry_unreachable [OF l e, of rq_delete ex_world]
    control_entry_unreachable [OF l e, of rq_a ex_world]
    l e c req_str_rq_delete req_str_rq_a
  show ?thesis by simp
qed

text \<open>
  Claim C4, as the code has it. For a request other than the control command: in ordered
  mode, a match on the only entry left empties the script and, inside \<open>req_handler\<close>,
  logs the response, logs that all requests are processed and runs \<open>close\<close> (the flag
  is set, the socket closed), and only then returns the response. This is the only way
  such a request turns the flag from false to true. \<open>_process_request\<close> sends the
  response after \<open>req_handler\<close> has returned and changes neither the instance nor the
  log: the instance has closed itself before the response is sent.
\<close>
theorem exhaustion_closes_inside_handler:
  assumes "req_str_of rq \<noteq> cmp_str_of self"
  shows "(requests_in_order self \<and> requests self = [r] \<and> req r = req_str_of rq
            \<and> read_body rq = Inr b \<and> response_hdrs (response r) = Inr hdrs
          \<longrightarrow> req_handler self rq w =
                (Inr (status (response r), Some hdrs, Some [response_body (response r)]),
                 self\<lparr>requests := [], is_closed := True, socket_open := False\<rparr>,
                 log (terminated_msg self) (log (closing_msg self) (log (all_processed_msg self)
                   (log (resp_msg self (req_str_of rq) (response r)
                          (response_body (response r))) w)))))
       \<and> (\<not> is_closed self \<and> is_closed (fst (snd (req_handler self rq w)))
          \<longrightarrow> requests_in_order self \<and> length (requests self) = 1
              \<and> req (hd (requests self)) = req_str_of rq
              \<and> requests (fst (snd (req_handler self rq w))) = [])
       \<and> snd (snd (process_request self rq conn w)) = snd (req_handler self rq w)"
proof -
  have a: "req_handler self rq w =
                (Inr (status (response r), Some hdrs, Some [response_body (response r)]),
                 self\<lparr>requests := [], is_closed := True, socket_open := False\<rparr>,
                 log (terminated_msg self) (log (closing_msg self) (log (all_processed_msg self)
                   (log (resp_msg self (req_str_of rq) (response r)
                          (response_body (response r))) w))))"
    if "requests_in_order self" "requests self = [r]" "req r = req_str_of rq"
      "read_body rq = Inr b" "response_hdrs (response r) = Inr hdrs"
  proof -
    have "find_request self (req_str_of rq) = Inr (Some 0)"
      using find_request_ordered [OF that(1,2)] that(3) by simp
    from req_handler_found [OF assms that(4) this] respond_ordered_head [OF that(1,2,5)]
    show ?thesis
      by (simp add: close_eq terminated_msg_def closing_msg_def all_processed_msg_def)
  qed
  have b: "requests_in_order self \<and> length (requests self) = 1
              \<and> req (hd (requests self)) = req_str_of rq
              \<and> requests (fst (snd (req_handler self rq w))) = []"
    if "\<not> is_closed self" "is_closed (fst (snd (req_handler self rq w)))"
  proof (cases rule: req_handler_cases [of rq self w])
    case control
    with assms show ?thesis by simp
  next
    case (raise e)
    with that show ?thesis by simp
  next
    case unmatched
    with that show ?thesis by simp
  next
    case (matched i r)
    with that show ?thesis by simp
  next
    case (exhausted r)
    note fi = find_request_index [OF exhausted(2)]
    have "length (requests self) = 1"
      using fi exhausted(5) by (cases "requests self") auto
    moreover have "req (hd (requests self)) = req_str_of rq"
      using fi by (simp add: hd_conv_nth)
    ultimately show ?thesis using exhausted by simp
  qed
  have c: "snd (snd (process_request self rq conn w)) = snd (req_handler self rq w)"
    by (simp add: process_request_def Let_def split: prod.splits sum.splits)
  from a b c show ?thesis by blast
qed

theorem exhaustion_closes_inside_handler_witness:
  "req_str_of rq_a \<noteq> cmp_str_of (ex_server\<lparr>requests := [ex_A]\<rparr>)
   \<and> fst (req_handler (ex_server\<lparr>requests := [ex_A]\<rparr>) rq_a ex_world)
       = Inr (200, Some [(''Content-Type'', ''text/plain'')], Some [''ok''])
   \<and> fst (snd (req_handler (ex_server\<lparr>requests := [ex_A]\<rparr>) rq_a ex_world))
       = ex_server\<lparr>requests := [], is_closed := True, socket_open := False\<rparr>
   \<and> length (LOG_QUEUE (snd (snd (req_handler (ex_server\<lparr>requests := [ex_A]\<rparr>) rq_a ex_world)))) = 4
   \<and> \<not> is_closed (fst (snd (req_handler ex_server rq_a ex_world)))
   \<and> snd (snd (process_request (ex_server\<lparr>requests := [ex_A]\<rparr>) rq_a ex_conn ex_world))
       = snd (req_handler (ex_server\<lparr>requests := [ex_A]\<rparr>) rq_a ex_world)"
proof -
  let ?s = "ex_server\<lparr>requests := [ex_A]\<rparr>"
  have nc: "req_str_of rq_a \<noteq> cmp_str_of ?s" "req_str_of rq_a \<noteq> cmp_str_of ex_server"
    by (simp_all add: req_str_rq_a cmp_str_of_def ex_server_def)
  have k: "requests_in_order ?s" "requests ?s = [ex_A]" "req ex_A = req_str_of rq_a"
    "\<not> is_closed ex_server" "length (requests ex_server) = 2"
    "status (response ex_A) = 200" "response_body (response ex_A) = ''ok''"
    "LOG_QUEUE ex_world = []"
    by (simp_all add: ex_server_def ex_A_def req_str_rq_a response_body_def ex_world_def)
  from exhaustion_closes_inside_handler [OF nc(1), where r = ex_A and b = "[]"
      and hdrs = "[(''Content-Type'', ''text/plain'')]" and w = ex_world and conn = ex_conn]
    exhaustion_closes_inside_handler [OF nc(2), where w = ex_world]
    nc k read_body_rq_a response_hdrs_ex_A
  show ?thesis by auto
qed

text \<open>
  Claim C4 says the instance closes itself after the response for the final match is
  sent. For the last entry of the example script, when \<open>req_handler\<close> returns the
  response the instance is already closed and nothing is sent yet; the response goes out
  afterwards, from \<open>_process_request\<close>, in the same closed state.
\<close>

theorem exhaustion_close_counterexample:
  "fst (req_handler (ex_server\<lparr>requests := [ex_A]\<rparr>) rq_a ex_world)
       = Inr (200, Some [(''Content-Type'', ''text/plain'')], Some [''ok''])
   \<and> is_closed (fst (snd (req_handler (ex_server\<lparr>requests := [ex_A]\<rparr>) rq_a ex_world)))
   \<and> \<not> socket_open (fst (snd (req_handler (ex_server\<lparr>requests := [ex_A]\<rparr>) rq_a ex_world)))
   \<and> sent ex_conn = []
   \<and> sent (fst (snd (process_request (ex_server\<lparr>requests := [ex_A]\<rparr>) rq_a ex_conn ex_world)))
       = [Send_response 200, Send_header ''Content-Type'' ''text/plain'', End_headers,
          Wfile_write ''ok'']
   \<and> fst (snd (snd (process_request (ex_server\<lparr>requests := [ex_A]\<rparr>) rq_a ex_conn ex_world)))
       = fst (snd (req_handler (ex_server\<lparr>requests := [ex_A]\<rparr>) rq_a ex_world))"
  by code_simp

text \<open>
  Claim C5 says every request that matches no script entry is answered with status 400
  and logged. In ordered mode with an empty script the request \<open>GET /c\<close> raises
  \<open>IndexError\<close> instead, with no answer and no log message; the unordered branch
  answers the same request on the same empty script with 400.
\<close>
theorem unmatched_request_ordered_empty:
  "fst (req_handler (ex_server\<lparr>requests := []\<rparr>) rq_c ex_world) = Inl IndexError
   \<and> LOG_QUEUE (snd (snd (req_handler (ex_server\<lparr>requests := []\<rparr>) rq_c ex_world))) = []
   \<and> fst (req_handler (ex_server\<lparr>requests := [], requests_in_order := False\<rparr>) rq_c ex_world)
       = Inr (400, None,
              Some [not_found_msg (ex_server\<lparr>requests := [], requests_in_order := False\<rparr>)
                      ''GET /c'', [CHR 0x0A]])"
  by code_simp

text \<open>
  Claim C6, as the code has it. A request that \<open>req_handler\<close> answers puts two
  messages on the log queue when it is the control command (\<open>close\<close> logs twice), four
  when it is the ordered-mode match of the only entry left (the response, the completion
  and the two of \<open>close\<close>), and one otherwise, matched or not. A request on which
  \<open>req_handler\<close> raises puts none.
\<close>
theorem log_messages_per_request:
  "(fst (req_handler self rq w) = Inr r \<longrightarrow>
      length (LOG_QUEUE (snd (snd (req_handler self rq w)))) =
        length (LOG_QUEUE w) +
        (if req_str_of rq = cmp_str_of self then 2
         else if requests_in_order self \<and> length (requests self) = 1
                 \<and> req (hd (requests self)) = req_str_of rq then 4
         else 1))
   \<and> (fst (req_handler self rq w) = Inl e \<longrightarrow> snd (snd (req_handler self rq w)) = w)"
proof (cases rule: req_handler_cases [of rq self w])
  case control
  then show ?thesis by simp
next
  case (raise e)
  then show ?thesis by simp
next
  case unmatched
  have "\<not> (requests_in_order self \<and> length (requests self) = 1
           \<and> req (hd (requests self)) = req_str_of rq)"
    using unmatched(2)
    by (auto simp: find_request_def index_def hd_conv_nth split: if_splits)
  with unmatched show ?thesis by auto
next
  case (matched i r)
  have "\<not> (requests_in_order self \<and> length (requests self) = 1)"
    using matched(4) by (cases "requests self") auto
  with matched show ?thesis by auto
next
  case (exhausted r)
  note fi = find_request_index [OF exhausted(2)]
  have "length (requests self) = 1"
    using fi exhausted(5) by (cases "requests self") auto
  moreover have "req (hd (requests self)) = req_str_of rq"
    using fi by (simp add: hd_conv_nth)
  ultimately show ?thesis using exhausted by simp
qed

theorem log_messages_per_request_witness:
  "fst (req_handler ex_server rq_delete ex_world) = Inr (200, None, None)
   \<and> length (LOG_QUEUE (snd (snd (req_handler ex_server rq_delete ex_world)))) = 2
   \<and> fst (req_handler (ex_server\<lparr>requests := [ex_A]\<rparr>) rq_a ex_world)
       = Inr (200, Some [(''Content-Type'', ''text/plain'')], Some [''ok''])
   \<and> length (LOG_QUEUE (snd (snd (req_handler (ex_server\<lparr>requests := [ex_A]\<rparr>) rq_a ex_world)))) = 4
   \<and> fst (req_handler ex_server rq_a ex_world)
       = Inr (200, Some [(''Content-Type'', ''text/plain'')], Some [''ok''])
   \<and> length (LOG_QUEUE (snd (snd (req_handler ex_server rq_a ex_world)))) = 1
   \<and> fst (req_handler ex_server rq_c ex_world)
       = Inr (400, None, Some [not_found_msg ex_server ''GET /c'', [CHR 0x0A]])
   \<and> length (LOG_QUEUE (snd (snd (req_handler ex_server rq_c ex_world)))) = 1
   \<and> fst (req_handler ex_server rq_delete ex_world) \<noteq> Inl ValueError"
proof -
  have d: "fst (req_handler ex_server rq_delete ex_world) = Inr (200, None, None)"
    by code_simp
  have l: "fst (req_handler (ex_server\<lparr>requests := [ex_A]\<rparr>) rq_a ex_world)
       = Inr (200, Some [(''Content-Type'', ''text/plain'')], Some [''ok''])"
    by code_simp
  have a: "fst (req_handler ex_server rq_a ex_world)
       = Inr (200, Some [(''Content-Type'', ''text/plain'')], Some [''ok''])"
    by code_simp
  have c: "fst (req_handler ex_server rq_c ex_world)
       = Inr (400, None, Some [not_found_msg ex_server ''GET /c'', [CHR 0x0A]])"
    by code_simp
  have k: "cmp_str_of ex_server = ''DELETE s1''" "cmp_str_of (ex_server\<lparr>requests := [ex_A]\<rparr>) = ''DELETE s1''"
    "requests_in_order ex_server" "requests ex_server = [ex_A, ex_B]" "req ex_A = ''GET /a''"
    "LOG_QUEUE ex_world = []"
    by (simp_all add: cmp_str_of_def ex_server_def ex_A_def ex_world_def)
  from log_messages_per_request [of ex_server rq_delete ex_world "(200, None, None)" ValueError]
    log_messages_per_request [of "ex_server\<lparr>requests := [ex_A]\<rparr>" rq_a ex_world
      "(200, Some [(''Content-Type'', ''text/plain'')], Some [''ok''])"]
    log_messages_per_request [of ex_server rq_a ex_world
      "(200, Some [(''Content-Type'', ''text/plain'')], Some [''ok''])"]
    log_messages_per_request [of ex_server rq_c ex_world
      "(400, None, Some [not_found_msg ex_server ''GET /c'', [CHR 0x0A]])"]
    d l a c k req_str_rq_delete req_str_rq_a req_str_rq_c
  show ?thesis by simp
qed

text \<open>
  Claim C6 says every processed request produces exactly one log message. The control
  command produces two.
\<close>

theorem one_log_message_counterexample:
  "fst (req_handler ex_server rq_delete ex_world) = Inr (200, None, None)
   \<and> LOG_QUEUE ex_world = []
   \<and> LOG_QUEUE (snd (snd (req_handler ex_server rq_delete ex_world)))
       = [''2016-05-01 12:00:00 '' @ closing_msg ex_server,
          ''2016-05-01 12:00:00 '' @ terminated_msg ex_server]"
  by code_simp

text \<open>
  Claim C7. \<open>close\<close> sets the flag before it closes the socket: at no point of \<open>close\<close>
  is the socket closed by it and the flag not set (after two statements the flag is set
  and the socket untouched), so an error that the closed socket causes finds the flag set
  and is swallowed. The \<open>except\<close> clause of \<open>run\<close> swallows an error exactly when the
  flag is set at that moment; with the flag not set the error leaves \<open>run\<close>, which
  ends the thread of that instance and leaves every other thread as it is.
\<close>
theorem closed_flag_before_socket_close:
  "(socket_open self \<and> \<not> socket_open (fst (close_upto k self w))
      \<longrightarrow> is_closed (fst (close_upto k self w))
        \<and> run_except (fst (close_upto k self w)) e = Inr ())
   \<and> is_closed (fst (close_upto 2 self w))
   \<and> socket_open (fst (close_upto 2 self w)) = socket_open self
   \<and> close self w = close_upto (length close_steps) self w
   \<and> is_closed (fst (close self w)) \<and> \<not> socket_open (fst (close self w))
   \<and> ((run_except s e = Inr ()) = is_closed s)
   \<and> (\<not> is_closed s \<longrightarrow> run_except s e = Inl e)
   \<and> (i < length ts \<longrightarrow>
        serve_forever_raised i e ts ! i =
          (fst (ts ! i), if is_closed (fst (ts ! i)) then Finished else Died e))
   \<and> (j \<noteq> i \<longrightarrow> serve_forever_raised i e ts ! j = ts ! j)
   \<and> length (serve_forever_raised i e ts) = length ts"
proof -
  have a: "is_closed (fst (close_upto k self w))
        \<and> run_except (fst (close_upto k self w)) e = Inr ()"
    if "socket_open self" "\<not> socket_open (fst (close_upto k self w))"
    using close_upto_invariant [OF that] by (simp add: run_except_def)
  have b: "is_closed (fst (close_upto 2 self w))"
    "socket_open (fst (close_upto 2 self w)) = socket_open self"
    by (simp_all add: close_upto_2)
  have c: "close self w = close_upto (length close_steps) self w"
    by (simp add: close_upto_def close_def)
  have d: "is_closed (fst (close self w))" "\<not> socket_open (fst (close self w))"
    by (simp_all add: close_eq)
  have f: "(run_except s e = Inr ()) = is_closed s" "\<not> is_closed s \<longrightarrow> run_except s e = Inl e"
    by (simp_all add: run_except_def)
  have g: "serve_forever_raised i e ts ! i =
          (fst (ts ! i), if is_closed (fst (ts ! i)) then Finished else Died e)"
    if "i < length ts"
    using that by (simp add: serve_forever_raised_def run_except_def)
  have h: "serve_forever_raised i e ts ! j = ts ! j" if "j \<noteq> i"
    using that by (simp add: serve_forever_raised_def)
  have l: "length (serve_forever_raised i e ts) = length ts"
    by (simp add: serve_forever_raised_def)
  from a b c d f g h l show ?thesis by blast
qed

theorem closed_flag_before_socket_close_witness:
  "socket_open ex_server
   \<and> \<not> socket_open (fst (close_upto 3 ex_server ex_world))
   \<and> is_closed (fst (close_upto 3 ex_server ex_world))
   \<and> run_except (fst (close_upto 3 ex_server ex_world)) ''Bad file descriptor'' = Inr ()
   \<and> \<not> is_closed ex_server
   \<and> run_except ex_server ''Bad file descriptor'' = Inl ''Bad file descriptor''
   \<and> serve_forever_raised 0 ''Bad file descriptor''
        [(ex_server, Running), (ex_server\<lparr>name := ''s2''\<rparr>, Running)] ! 0
       = (ex_server, Died ''Bad file descriptor'')
   \<and> serve_forever_raised 0 ''Bad file descriptor''
        [(ex_server, Running), (ex_server\<lparr>name := ''s2''\<rparr>, Running)] ! 1
       = (ex_server\<lparr>name := ''s2''\<rparr>, Running)"
proof -
  have o: "socket_open ex_server" "\<not> is_closed ex_server"
    by (simp_all add: ex_server_def)
  have n: "\<not> socket_open (fst (close_upto 3 ex_server ex_world))"
    by (simp add: close_upto_3)
  from closed_flag_before_socket_close [where self = ex_server and k = 3 and w = ex_world
      and e = "''Bad file descriptor''" and s = ex_server and i = 0 and j = 1
      and ts = "[(ex_server, Running), (ex_server\<lparr>name := ''s2''\<rparr>, Running)]"]
    o n
  show ?thesis by simp
qed

text \<open>
  Claim C8, as the code has it. For every sequence of queued messages the log consumer
  writes one line for each message before the first sentinel, returns at the sentinel
  leaving the rest of the queue unread, and never writes the sentinel; without a sentinel
  it writes every message and then waits. \<open>log\<close> never enqueues the sentinel, \<open>stop_it\<close>
  enqueues it once, and the main thread enqueues it exactly once, as its last action, when
  every instance has its closed flag set; a queue without sentinel before is then written
  in full.
\<close>
theorem log_consumer_and_sentinel:
  "Logger_run q logfile out =
     (if EXIT_MSG \<in> set q then Returned else Blocked,
      if EXIT_MSG \<in> set q then tl (dropWhile (\<lambda>m. m \<noteq> EXIT_MSG) q) else [],
      logfile @ map (\<lambda>m. m @ [CHR 0x0A]) (takeWhile (\<lambda>m. m \<noteq> EXIT_MSG) q),
      out @ map (\<lambda>m. ''@@@: '' @ m) (takeWhile (\<lambda>m. m \<noteq> EXIT_MSG) q))
   \<and> EXIT_MSG @ [CHR 0x0A] \<notin> set (map (\<lambda>m. m @ [CHR 0x0A]) (takeWhile (\<lambda>m. m \<noteq> EXIT_MSG) q))
   \<and> (\<exists>m. LOG_QUEUE (log msg w) = LOG_QUEUE w @ [m] \<and> m \<noteq> EXIT_MSG)
   \<and> LOG_QUEUE (stop_it w) = LOG_QUEUE w @ [EXIT_MSG]
   \<and> (main_finish ps w = Some (servers, w') \<longrightarrow>
        \<not> any_open servers
        \<and> (\<exists>ms. LOG_QUEUE w' = LOG_QUEUE w @ ms @ [EXIT_MSG] \<and> EXIT_MSG \<notin> set ms))
   \<and> (main_finish ps w = Some (servers, w') \<and> EXIT_MSG \<notin> set (LOG_QUEUE w) \<longrightarrow>
        Logger_run (LOG_QUEUE w') [] [] =
          (Returned, [], map (\<lambda>m. m @ [CHR 0x0A]) (butlast (LOG_QUEUE w')),
           map (\<lambda>m. ''@@@: '' @ m) (butlast (LOG_QUEUE w'))))"
proof -
  have e: "Logger_run (LOG_QUEUE w') [] [] =
          (Returned, [], map (\<lambda>m. m @ [CHR 0x0A]) (butlast (LOG_QUEUE w')),
           map (\<lambda>m. ''@@@: '' @ m) (butlast (LOG_QUEUE w')))"
    if "main_finish ps w = Some (servers, w')" "EXIT_MSG \<notin> set (LOG_QUEUE w)"
  proof -
    from main_finish_result [OF that(1)] obtain ms where
      ms: "LOG_QUEUE w' = LOG_QUEUE w @ ms @ [EXIT_MSG]" "EXIT_MSG \<notin> set ms"
      by blast
    define xs where "xs = LOG_QUEUE w @ ms"
    have q: "LOG_QUEUE w' = xs @ [EXIT_MSG]" and n: "EXIT_MSG \<notin> set xs"
      using ms that(2) by (simp_all add: xs_def)
    have t: "takeWhile (\<lambda>m. m \<noteq> EXIT_MSG) (xs @ [EXIT_MSG]) = xs"
      using n by (induction xs) auto
    have d: "dropWhile (\<lambda>m. m \<noteq> EXIT_MSG) (xs @ [EXIT_MSG]) = [EXIT_MSG]"
      using n by (induction xs) auto
    show ?thesis
      by (simp add: Logger_run_eq q t d)
  qed
  from Logger_run_eq [of q logfile out] sentinel_not_written [of q]
    log_adds_no_sentinel [of msg w] main_finish_result [of ps w servers w'] e
  show ?thesis by (simp add: stop_it_def)
qed

theorem log_consumer_and_sentinel_witness:
  "Logger_run [''a'', EXIT_MSG, ''b''] [] [] = (Returned, [''b''], [''a'' @ [CHR 0x0A]], [''@@@: a''])
   \<and> main_finish [Tick [ex_server], Tick [ex_server\<lparr>is_closed := True\<rparr>]] ex_world
       = Some ([ex_server\<lparr>is_closed := True\<rparr>],
               stop_it (log ''Done!'' (log ''All servers have finished...'' ex_world)))
   \<and> EXIT_MSG \<notin> set (LOG_QUEUE ex_world)
   \<and> \<not> any_open [ex_server\<lparr>is_closed := True\<rparr>]
   \<and> Logger_run
        (LOG_QUEUE (stop_it (log ''Done!'' (log ''All servers have finished...'' ex_world)))) [] []
       = (Returned, [],
          [''2016-05-01 12:00:00 All servers have finished...'' @ [CHR 0x0A],
           ''2016-05-01 12:00:00 Done!'' @ [CHR 0x0A]],
          [''@@@: 2016-05-01 12:00:00 All servers have finished...'',
           ''@@@: 2016-05-01 12:00:00 Done!''])"
proof -
  have m: "main_finish [Tick [ex_server], Tick [ex_server\<lparr>is_closed := True\<rparr>]] ex_world
       = Some ([ex_server\<lparr>is_closed := True\<rparr>],
               stop_it (log ''Done!'' (log ''All servers have finished...'' ex_world)))"
    by (simp add: main_finish_def any_open_def ex_server_def)
  have n: "EXIT_MSG \<notin> set (LOG_QUEUE ex_world)"
    by (simp add: ex_world_def)
  have x: "EXIT_MSG \<in> set [''a'', EXIT_MSG, ''b'']" "''a'' \<noteq> EXIT_MSG"
    by (simp_all add: EXIT_MSG_def)
  have q: "LOG_QUEUE (stop_it (log ''Done!'' (log ''All servers have finished...'' ex_world)))
      = [''2016-05-01 12:00:00 All servers have finished...'', ''2016-05-01 12:00:00 Done!'',
         EXIT_MSG]"
    by (simp add: stop_it_def log_def ex_world_def)
  from log_consumer_and_sentinel [where q = "[''a'', EXIT_MSG, ''b'']" and logfile = "[]"
      and out = "[]" and ps = "[Tick [ex_server], Tick [ex_server\<lparr>is_closed := True\<rparr>]]"
      and w = ex_world and servers = "[ex_server\<lparr>is_closed := True\<rparr>]"
      and w' = "stop_it (log ''Done!'' (log ''All servers have finished...'' ex_world))"]
    m n x
  show ?thesis by (simp add: q)
qed

text \<open>
  Claim C8 says the sentinel is enqueued after all producers are done. \<open>close\<close> sets
  the flag before its last \<open>log\<close> call, and the main thread waits for the flags only:
  in the interleaving above the main thread enqueues the sentinel while the instance is
  still inside \<open>close\<close>, the message \<open>Terminated.\<close> is enqueued after the sentinel,
  and the consumer returns without writing it.
\<close>

theorem sentinel_before_last_message_counterexample:
  "fst race_mid = ex_server\<lparr>is_closed := True\<rparr>
   \<and> \<not> any_open [fst race_mid]
   \<and> race_main_queue =
       [''2016-05-01 12:00:00 '' @ closing_msg ex_server,
        ''2016-05-01 12:00:00 All servers have finished...'',
        ''2016-05-01 12:00:00 Done!'',
        EXIT_MSG]
   \<and> fst race_end = fst (close ex_server ex_world)
   \<and> LOG_QUEUE (snd race_end) =
       [''2016-05-01 12:00:00 '' @ closing_msg ex_server,
        ''2016-05-01 12:00:00 All servers have finished...'',
        ''2016-05-01 12:00:00 Done!'',
        EXIT_MSG,
        ''2016-05-01 12:00:00 '' @ terminated_msg ex_server]
   \<and> Logger_run (LOG_QUEUE (snd race_end)) [] [] =
       (Returned,
        [''2016-05-01 12:00:00 '' @ terminated_msg ex_server],
        [''2016-05-01 12:00:00 '' @ closing_msg ex_server @ [CHR 0x0A],
         ''2016-05-01 12:00:00 All servers have finished...'' @ [CHR 0x0A],
         ''2016-05-01 12:00:00 Done!'' @ [CHR 0x0A]],
        [''@@@: 2016-05-01 12:00:00 '' @ closing_msg ex_server,
         ''@@@: 2016-05-01 12:00:00 All servers have finished...'',
         ''@@@: 2016-05-01 12:00:00 Done!''])"
  by code_simp

end
